theory Spec2Isabelle
  imports Main "HOL-Library.Multiset"
begin


section \<open>Python values\<close>

text \<open>
  The entities handled by \<^verbatim>\<open>PrismaAccessSync\<close> are the values that
  \<^verbatim>\<open>response.json()\<close> returns: \<^verbatim>\<open>None\<close>, booleans, numbers, strings, lists
  and dictionaries with string keys.  A dictionary is an association list in
  insertion order.  Numbers are integers here; floating point is not modelled.
\<close>

datatype json =
    JNull
  | JBool bool
  | JInt int
  | JStr string
  | JList "json list"
  | JDict "(string \<times> json) list"

text \<open>The exceptions the program can meet.  \<open>ApiError\<close> is the plain
  \<^verbatim>\<open>Exception(msg)\<close> raised on a bad HTTP status.\<close>

datatype py_error = AttributeError | KeyError | TypeError | ApiError string

definition bindE :: "'e + 'a \<Rightarrow> ('a \<Rightarrow> 'e + 'b) \<Rightarrow> 'e + 'b" where
  "bindE x f = (case x of Inl e \<Rightarrow> Inl e | Inr v \<Rightarrow> f v)"

text \<open>\<^verbatim>\<open>bool(x)\<close>, as used by \<^verbatim>\<open>if x:\<close>.\<close>

fun truthy :: "json \<Rightarrow> bool" where
  "truthy JNull = False"
| "truthy (JBool b) = b"
| "truthy (JInt i) = (i \<noteq> 0)"
| "truthy (JStr s) = (s \<noteq> [])"
| "truthy (JList xs) = (xs \<noteq> [])"
| "truthy (JDict kvs) = (kvs \<noteq> [])"

text \<open>\<^verbatim>\<open>x.get(k)\<close>: only a dictionary has the method.\<close>

fun dict_get :: "json \<Rightarrow> string \<Rightarrow> py_error + json" where
  "dict_get (JDict kvs) k = Inr (case map_of kvs k of None \<Rightarrow> JNull | Some v \<Rightarrow> v)"
| "dict_get _ k = Inl AttributeError"

text \<open>\<^verbatim>\<open>x[k]\<close> with a string \<open>k\<close>: a missing key raises \<^verbatim>\<open>KeyError\<close>, any
  value that is not a dictionary raises \<^verbatim>\<open>TypeError\<close>.\<close>

fun subscript :: "json \<Rightarrow> string \<Rightarrow> py_error + json" where
  "subscript (JDict kvs) k = (case map_of kvs k of None \<Rightarrow> Inl KeyError | Some v \<Rightarrow> Inr v)"
| "subscript _ k = Inl TypeError"

text \<open>\<^verbatim>\<open>d[k] = v\<close> on the entries of a dictionary: an existing key keeps its
  place, a new key goes to the end.  \<open>put\<close> is the statement on a value; only
  a dictionary supports it here.\<close>

fun set_item :: "('k \<times> 'v) list \<Rightarrow> 'k \<Rightarrow> 'v \<Rightarrow> ('k \<times> 'v) list" where
  "set_item [] k v = [(k, v)]"
| "set_item ((k', v') # kvs) k v =
     (if k' = k then (k, v) # kvs else (k', v') # set_item kvs k v)"

fun put :: "json \<Rightarrow> string \<Rightarrow> json \<Rightarrow> py_error + json" where
  "put (JDict kvs) k v = Inr (JDict (set_item kvs k v))"
| "put _ k v = Inl TypeError"

text \<open>The elements a \<^verbatim>\<open>for\<close> loop sees: the items of a list, the characters of
  a string, the keys of a dictionary; nothing else is iterable.\<close>

fun py_iter :: "json \<Rightarrow> py_error + json list" where
  "py_iter (JList xs) = Inr xs"
| "py_iter (JStr s) = Inr (map (\<lambda>c. JStr [c]) s)"
| "py_iter (JDict kvs) = Inr (map (\<lambda>kv. JStr (fst kv)) kvs)"
| "py_iter _ = Inl TypeError"

text \<open>Running a loop body over the elements in order; the first exception ends
  the loop.\<close>

fun mapE :: "('a \<Rightarrow> 'e + 'b) \<Rightarrow> 'a list \<Rightarrow> 'e + 'b list" where
  "mapE f [] = Inr []"
| "mapE f (x # xs) = bindE (f x) (\<lambda>y. bindE (mapE f xs) (\<lambda>ys. Inr (y # ys)))"

text \<open>
  \<^verbatim>\<open>for x in v: body(x)\<close> where the body mutates \<open>x\<close> in place.  The elements
  of a list are the list's own objects, so the list afterwards holds the mutated
  elements.  The characters of a string and the keys of a dictionary are not part
  of the container: the body runs on them and the container stays as it was.
\<close>

fun for_each :: "(json \<Rightarrow> py_error + json) \<Rightarrow> json \<Rightarrow> py_error + json" where
  "for_each f (JList xs) = bindE (mapE f xs) (\<lambda>ys. Inr (JList ys))"
| "for_each f v = bindE (py_iter v) (\<lambda>xs. bindE (mapE f xs) (\<lambda>_. Inr v))"

text \<open>
  \<^verbatim>\<open>if d.get(k): body(d[k])\<close> where the body mutates the object \<open>d[k]\<close> in place:
  afterwards \<open>d\<close> holds the mutated object under the same key.
\<close>

definition on_field :: "string \<Rightarrow> (json \<Rightarrow> py_error + json) \<Rightarrow> json \<Rightarrow> py_error + json" where
  "on_field k body d =
     bindE (dict_get d k) (\<lambda>v.
       if truthy v then bindE (body v) (\<lambda>v'. put d k v') else Inr d)"

text \<open>
  Keys of the identity maps.  Python compares dictionary keys with \<^verbatim>\<open>==\<close> on
  hashable values: \<^verbatim>\<open>True\<close> and \<^verbatim>\<open>1\<close> are the same key, lists and dictionaries
  raise \<^verbatim>\<open>TypeError\<close>.
\<close>

datatype key = KNone | KInt int | KStr string

fun to_key :: "json \<Rightarrow> py_error + key" where
  "to_key JNull = Inr KNone"
| "to_key (JBool b) = Inr (KInt (if b then 1 else 0))"
| "to_key (JInt i) = Inr (KInt i)"
| "to_key (JStr s) = Inr (KStr s)"
| "to_key _ = Inl TypeError"

type_synonym id_mapping = "(key \<times> json) list"

section \<open>Normalizer\<close>

definition METADATA_FIELDS :: "string set" where
  "METADATA_FIELDS = {''id'', ''created_at'', ''created_by'', ''updated_at'',
     ''updated_by'', ''version'', ''tenant'', ''tenant_id''}"

text \<open>\<^verbatim>\<open>{k: v for k, v in pattern.items() if k not in self.METADATA_FIELDS}\<close>\<close>

fun normalize_pattern :: "json \<Rightarrow> py_error + json" where
  "normalize_pattern (JDict kvs) =
     Inr (JDict (filter (\<lambda>(k, v). k \<notin> METADATA_FIELDS) kvs))"
| "normalize_pattern _ = Inl AttributeError"

section \<open>Reference rewriter\<close>

text \<open>
  \<^verbatim>\<open>copy.deepcopy\<close> returns a value equal to its argument, and the statements after
  it mutate the copy only, so on values the two rewriters are functions from the
  argument to the returned copy.  The store-level model further down keeps the
  copy and the mutation apart.

  \<^verbatim>\<open>if rule_item.get('id') in pattern_id_mapping:
      rule_item['id'] = pattern_id_mapping[rule_item['id']]\<close>
\<close>

definition remap_rule_item :: "id_mapping \<Rightarrow> json \<Rightarrow> py_error + json" where
  "remap_rule_item m rule_item =
     bindE (dict_get rule_item ''id'') (\<lambda>i.
     bindE (to_key i) (\<lambda>k.
       if k \<in> fst ` set m then
         bindE (subscript rule_item ''id'') (\<lambda>i'.
         bindE (to_key i') (\<lambda>k'.
           case map_of m k' of
             None \<Rightarrow> Inl KeyError
           | Some v \<Rightarrow> put rule_item ''id'' v))
       else Inr rule_item))"

lemma bindE_cong [fundef_cong]:
  "x = y \<Longrightarrow> (\<And>v. y = Inr v \<Longrightarrow> f v = g v) \<Longrightarrow> bindE x f = bindE y g"
  by (simp add: bindE_def split: sum.splits)

lemma mapE_cong [fundef_cong]:
  "xs = ys \<Longrightarrow> (\<And>x. x \<in> set ys \<Longrightarrow> f x = g x) \<Longrightarrow> mapE f xs = mapE g ys"
  by (induction ys arbitrary: xs) (auto simp: bindE_def split: sum.splits)

lemma for_each_cong [fundef_cong]:
  assumes "v = w"
    and "\<And>xs x. py_iter w = Inr xs \<Longrightarrow> x \<in> set xs \<Longrightarrow> f x = g x"
  shows "for_each f v = for_each g w"
proof (cases w)
  case (JList xs)
  with assms show ?thesis by (simp cong: mapE_cong)
qed (use assms in \<open>auto intro!: bindE_cong mapE_cong\<close>)

lemma on_field_cong [fundef_cong]:
  assumes "d = e" and "k = l"
    and "\<And>v. dict_get e l = Inr v \<Longrightarrow> truthy v \<Longrightarrow> f v = g v"
  shows "on_field k f d = on_field l g e"
  using assms by (auto simp: on_field_def intro!: bindE_cong)

lemma size_map_of: "map_of kvs k = Some v \<Longrightarrow> size v < size (JDict kvs)"
  by (induction kvs) (auto split: if_splits)

lemma size_dict_get: "dict_get d k = Inr v \<Longrightarrow> truthy v \<Longrightarrow> size v < size d"
  by (cases d) (auto split: option.splits dest: size_map_of)

lemma size_list_elem: "x \<in> set xs \<Longrightarrow> size x \<le> size_list size xs"
  by (induction xs) auto

lemma size_py_iter: "py_iter v = Inr xs \<Longrightarrow> x \<in> set xs \<Longrightarrow> size x \<le> size v"
  by (cases v) (auto dest: size_list_elem)

lemma map_of_set_item: "map_of (set_item kvs k v) = (map_of kvs)(k \<mapsto> v)"
  by (induction kvs) auto

lemma dict_get_put_other:
  "put d k v = Inr d' \<Longrightarrow> k' \<noteq> k \<Longrightarrow> dict_get d' k' = dict_get d k'"
  by (cases d) (auto simp: map_of_set_item)

lemma bindE_Inr_iff: "bindE x f = Inr r \<longleftrightarrow> (\<exists>v. x = Inr v \<and> f v = Inr r)"
  by (simp add: bindE_def split: sum.splits)

lemma bindE_simps [simp]: "bindE (Inl e) f = Inl e" "bindE (Inr v) f = f v"
  by (simp_all add: bindE_def)

lemma on_field_get_other:
  "on_field k f d = Inr d' \<Longrightarrow> k' \<noteq> k \<Longrightarrow> dict_get d' k' = dict_get d k'"
  by (auto simp: on_field_def bindE_Inr_iff split: if_splits dest: dict_get_put_other)

text \<open>
  \<^verbatim>\<open>_remap_expression_tree\<close>: the node's own rule item first, then every
  sub-expression in order.  The recursion follows the nesting of the value.
\<close>

function remap_expression_tree :: "id_mapping \<Rightarrow> json \<Rightarrow> py_error + json" where
  "remap_expression_tree m tree =
     bindE (on_field ''rule_item'' (remap_rule_item m) tree) (\<lambda>tree.
       on_field ''sub_expressions'' (for_each (remap_expression_tree m)) tree)"
  by pat_completeness auto
termination
proof (relation "measure (\<lambda>(m, t). size t)")
  show "wf (measure (\<lambda>(m, t). size t))" by simp
next
  fix m tree t1 v xs x
  assume a: "on_field ''rule_item'' (remap_rule_item m) tree = Inr t1"
    "dict_get t1 ''sub_expressions'' = Inr v" "truthy v" "py_iter v = Inr xs" "x \<in> set xs"
  from a(1) have "dict_get t1 ''sub_expressions'' = dict_get tree ''sub_expressions''"
    by (rule on_field_get_other) simp
  with a(2,3) have "size v < size tree" by (simp add: size_dict_get)
  moreover from a(4,5) have "size x \<le> size v" by (rule size_py_iter)
  ultimately show "((m, x), (m, tree)) \<in> measure (\<lambda>(m, t). size t)" by simp
qed

declare remap_expression_tree.simps [simp del]

text \<open>\<^verbatim>\<open>_remap_pattern_ids\<close>, after the deep copy.\<close>

definition remap_pattern_ids :: "json \<Rightarrow> id_mapping \<Rightarrow> py_error + json" where
  "remap_pattern_ids profile pattern_id_mapping =
     bindE (on_field ''advance_data_patterns_rules''
              (for_each (on_field ''conditions''
                (for_each (on_field ''rule_items''
                  (for_each (remap_rule_item pattern_id_mapping)))))) profile) (\<lambda>profile.
       on_field ''detection_rules''
         (for_each (on_field ''expression_tree''
           (remap_expression_tree pattern_id_mapping))) profile)"

text \<open>
  The inner loop of \<^verbatim>\<open>_remap_profile_ids\<close>: a new list is built from the elements
  the loop sees, each replaced by \<^verbatim>\<open>profile_id_mapping.get(profile_id, profile_id)\<close>.
\<close>

definition remap_id_list :: "id_mapping \<Rightarrow> json \<Rightarrow> py_error + json" where
  "remap_id_list m ids =
     bindE (py_iter ids) (\<lambda>xs.
     bindE (mapE (\<lambda>profile_id.
              bindE (to_key profile_id) (\<lambda>k.
                Inr (case map_of m k of None \<Rightarrow> profile_id | Some v \<Rightarrow> v))) xs) (\<lambda>remapped_ids.
       Inr (JList remapped_ids)))"

definition remap_detection_rule :: "id_mapping \<Rightarrow> json \<Rightarrow> py_error + json" where
  "remap_detection_rule m detection_rule =
     bindE (dict_get detection_rule ''rule_type'') (\<lambda>t.
       if t = JStr ''multi_profile'' then
         on_field ''multi_profile'' (on_field ''data_profile_ids'' (remap_id_list m))
           detection_rule
       else Inr detection_rule)"

text \<open>\<^verbatim>\<open>_remap_profile_ids\<close>, after the deep copy.\<close>

definition remap_profile_ids :: "json \<Rightarrow> id_mapping \<Rightarrow> py_error + json" where
  "remap_profile_ids profile profile_id_mapping =
     on_field ''detection_rules'' (for_each (remap_detection_rule profile_id_mapping)) profile"

section \<open>Identity mapper\<close>




section \<open>Differ and classifier\<close>

text \<open>\<^verbatim>\<open>{p['name']: p for p in patterns}\<close>\<close>

fun index_by_name :: "json list \<Rightarrow> (key \<times> json) list \<Rightarrow> py_error + (key \<times> json) list" where
  "index_by_name [] acc = Inr acc"
| "index_by_name (p # ps) acc =
     bindE (subscript p ''name'') (\<lambda>n.
     bindE (to_key n) (\<lambda>k.
       index_by_name ps (set_item acc k p)))"

text \<open>An entry of \<^verbatim>\<open>to_update\<close>:
  \<^verbatim>\<open>{'source': source_pattern, 'destination': dest_dict[name], 'diff': diff}\<close>.\<close>

record update_item =
  source :: json
  destination :: json
  diff :: json

text \<open>\<^verbatim>\<open>if mapping: x = remap(x, mapping)\<close>: neither \<^verbatim>\<open>None\<close> nor an empty
  dictionary triggers the rewriting.\<close>

fun remap_if_given ::
  "(json \<Rightarrow> id_mapping \<Rightarrow> py_error + json) \<Rightarrow> id_mapping option \<Rightarrow> json \<Rightarrow> py_error + json" where
  "remap_if_given remap None x = Inr x"
| "remap_if_given remap (Some m) x = (if m = [] then Inr x else remap x m)"

text \<open>
  The loop of \<^verbatim>\<open>compare_patterns\<close> over \<^verbatim>\<open>source_dict.items()\<close>, with the three
  result lists as accumulators.  \<open>deep_diff\<close> stands for the call
  \<^verbatim>\<open>DeepDiff(source_norm, dest_norm, ignore_order=True, exclude_regex_paths=...)\<close> of
  the \<^verbatim>\<open>deepdiff\<close> library, whose result is empty, hence false, when it finds no
  difference.
\<close>

fun compare_loop ::
  "(json \<Rightarrow> json \<Rightarrow> json) \<Rightarrow> (key \<times> json) list \<Rightarrow> id_mapping option \<Rightarrow> id_mapping option
    \<Rightarrow> (key \<times> json) list \<Rightarrow> json list \<times> update_item list \<times> json list
    \<Rightarrow> py_error + json list \<times> update_item list \<times> json list" where
  "compare_loop deep_diff dest_dict pattern_id_mapping profile_id_mapping [] acc = Inr acc"
| "compare_loop deep_diff dest_dict pattern_id_mapping profile_id_mapping
     ((name, source_pattern) # rest) (to_create, to_update, identical) =
     (case map_of dest_dict name of
        None \<Rightarrow>
          compare_loop deep_diff dest_dict pattern_id_mapping profile_id_mapping rest
            (to_create @ [source_pattern], to_update, identical)
      | Some dest_pattern \<Rightarrow>
          bindE (normalize_pattern source_pattern) (\<lambda>source_norm.
          bindE (remap_if_given remap_pattern_ids pattern_id_mapping source_norm) (\<lambda>source_norm.
          bindE (remap_if_given remap_profile_ids profile_id_mapping source_norm) (\<lambda>source_norm.
          bindE (normalize_pattern dest_pattern) (\<lambda>dest_norm.
            if truthy (deep_diff source_norm dest_norm) then
              compare_loop deep_diff dest_dict pattern_id_mapping profile_id_mapping rest
                (to_create,
                 to_update @ [\<lparr>source = source_pattern, destination = dest_pattern,
                                diff = deep_diff source_norm dest_norm\<rparr>],
                 identical)
            else
              compare_loop deep_diff dest_dict pattern_id_mapping profile_id_mapping rest
                (to_create, to_update, identical @ [source_pattern]))))))"

text \<open>\<^verbatim>\<open>compare_patterns\<close>.  The two arguments are iterated as they are given; the
  orchestrator passes lists.\<close>

definition compare_patterns ::
  "(json \<Rightarrow> json \<Rightarrow> json) \<Rightarrow> json \<Rightarrow> json \<Rightarrow> id_mapping option \<Rightarrow> id_mapping option
    \<Rightarrow> py_error + json list \<times> update_item list \<times> json list" where
  "compare_patterns deep_diff source_patterns dest_patterns pattern_id_mapping profile_id_mapping =
     bindE (py_iter source_patterns) (\<lambda>source.
     bindE (index_by_name source []) (\<lambda>source_dict.
     bindE (py_iter dest_patterns) (\<lambda>dest.
     bindE (index_by_name dest []) (\<lambda>dest_dict.
       compare_loop deep_diff dest_dict pattern_id_mapping profile_id_mapping source_dict
         ([], [], [])))))"


section \<open>Structural difference\<close>

text \<open>
  Modelled from the spec: the \<^verbatim>\<open>deepdiff\<close> library that \<^verbatim>\<open>compare_patterns\<close> calls is
  not part of the repository.  The specification describes the comparison as deep
  structural equality over mappings, sequences and scalars, with sequences
  compared order-insensitively, as multisets of their elements, and with the
  field \<^verbatim>\<open>supported_confidence_levels\<close> excluded from the comparison wherever it
  appears, whatever its value; it is implemented by canonicalization before an
  equality test.  \<open>canonical\<close> is that canonical form: a list becomes the
  multiset of its canonical elements, a dictionary the multiset of its canonical
  entries without the excluded key.
\<close>

datatype canon =
    CNull
  | CBool bool
  | CInt int
  | CStr string
  | CSeq "canon multiset"
  | CMap "(string \<times> canon) multiset"

definition excluded_key :: string where
  "excluded_key = ''supported_confidence_levels''"

primrec canonical :: "json \<Rightarrow> canon" where
  "canonical JNull = CNull"
| "canonical (JBool b) = CBool b"
| "canonical (JInt i) = CInt i"
| "canonical (JStr s) = CStr s"
| "canonical (JList xs) = CSeq (mset (map canonical xs))"
| "canonical (JDict kvs) =
     CMap (mset (filter (\<lambda>kv. fst kv \<noteq> excluded_key) (map (map_prod id canonical) kvs)))"

text \<open>
  Modelled from the spec: the result of the comparison is an opaque description of
  the differences, empty (and so false) exactly when the canonical forms agree.
\<close>

definition spec_deep_diff :: "json \<Rightarrow> json \<Rightarrow> json" where
  "spec_deep_diff source_norm dest_norm =
     (if canonical source_norm = canonical dest_norm then JDict []
      else JDict [(''values_changed'', JList [source_norm, dest_norm])])"


section \<open>Entity store\<close>

text \<open>
  The remote service is reached through six HTTP requests, each carrying the
  tenant's token.  What the service answers is not part of the program: it is a
  parameter \<open>http\<close>, a function from the request and the state of the world to
  the outcome and the new state.  The outcome is the decoded JSON body of a
  successful response, or the exception that the call raises (a transport
  failure, or the \<^verbatim>\<open>Exception\<close> the program raises itself on a status code it does
  not accept).  The state carries the log of the requests issued so far.
\<close>

datatype request =
    ListPatterns string
  | ListProfiles string
  | CreatePattern string json
  | UpdatePattern string json json
  | CreateProfile string json
  | UpdateProfile string json json

type_synonym 'w http = "request \<Rightarrow> 'w \<Rightarrow> (py_error + json) \<times> 'w"

type_synonym 'w st = "'w \<times> request list"

type_synonym ('a, 'w) action = "'w st \<Rightarrow> (py_error + 'a) \<times> 'w st"

definition send :: "'w http \<Rightarrow> request \<Rightarrow> (json, 'w) action" where
  "send http r st = (case http r (fst st) of (res, w') \<Rightarrow> (res, (w', snd st @ [r])))"

definition returnS :: "'a \<Rightarrow> ('a, 'w) action" where
  "returnS v st = (Inr v, st)"

definition liftE :: "py_error + 'a \<Rightarrow> ('a, 'w) action" where
  "liftE x st = (x, st)"

definition bindS :: "('a, 'w) action \<Rightarrow> ('a \<Rightarrow> ('b, 'w) action) \<Rightarrow> ('b, 'w) action" where
  "bindS m f st = (case m st of (Inl e, st') \<Rightarrow> (Inl e, st') | (Inr v, st') \<Rightarrow> f v st')"


text \<open>\<^verbatim>\<open>[p for p in xs if cond(p)]\<close> with a condition that can raise.\<close>

fun filterE :: "('a \<Rightarrow> 'e + bool) \<Rightarrow> 'a list \<Rightarrow> 'e + 'a list" where
  "filterE c [] = Inr []"
| "filterE c (x # xs) =
     bindE (c x) (\<lambda>keep. bindE (filterE c xs) (\<lambda>ys. Inr (if keep then x # ys else ys)))"





definition create_pattern :: "'w http \<Rightarrow> json \<Rightarrow> string \<Rightarrow> (json, 'w) action" where
  "create_pattern http pattern token =
     bindS (liftE (normalize_pattern pattern)) (\<lambda>clean_pattern.
       send http (CreatePattern token clean_pattern))"

definition update_pattern :: "'w http \<Rightarrow> json \<Rightarrow> json \<Rightarrow> string \<Rightarrow> (json, 'w) action" where
  "update_pattern http pattern_id pattern token =
     bindS (liftE (normalize_pattern pattern)) (\<lambda>clean_pattern.
       send http (UpdatePattern token pattern_id clean_pattern))"

text \<open>\<^verbatim>\<open>create_profile\<close> and \<^verbatim>\<open>update_profile\<close> rewrite the pattern references
  always, the profile references when the profile map is not empty, and wrap the
  body: \<^verbatim>\<open>{"dataProfile": clean_profile}\<close>.\<close>

definition clean_profile_payload :: "json \<Rightarrow> id_mapping \<Rightarrow> id_mapping option \<Rightarrow> py_error + json" where
  "clean_profile_payload profile pattern_id_mapping profile_id_mapping =
     bindE (normalize_pattern profile) (\<lambda>clean_profile.
     bindE (remap_pattern_ids clean_profile pattern_id_mapping) (\<lambda>clean_profile.
     bindE (remap_if_given remap_profile_ids profile_id_mapping clean_profile) (\<lambda>clean_profile.
       Inr (JDict [(''dataProfile'', clean_profile)]))))"

definition create_profile ::
  "'w http \<Rightarrow> json \<Rightarrow> string \<Rightarrow> id_mapping \<Rightarrow> id_mapping option \<Rightarrow> (json, 'w) action" where
  "create_profile http profile token pattern_id_mapping profile_id_mapping =
     bindS (liftE (clean_profile_payload profile pattern_id_mapping profile_id_mapping)) (\<lambda>payload.
       send http (CreateProfile token payload))"

definition update_profile ::
  "'w http \<Rightarrow> json \<Rightarrow> json \<Rightarrow> string \<Rightarrow> id_mapping \<Rightarrow> id_mapping option \<Rightarrow> (json, 'w) action" where
  "update_profile http profile_id profile token pattern_id_mapping profile_id_mapping =
     bindS (liftE (clean_profile_payload profile pattern_id_mapping profile_id_mapping)) (\<lambda>payload.
       send http (UpdateProfile token profile_id payload))"

section \<open>Reports\<close>

text \<open>
  An entry of an \<^verbatim>\<open>errors\<close> list stands for the string
  \<^verbatim>\<open>f"Error creating {name}: {str(e)}"\<close> or \<^verbatim>\<open>f"Error updating {name}: {str(e)}"\<close>:
  the name of the item and the exception.
\<close>

datatype error_entry = ErrorCreating json py_error | ErrorUpdating json py_error

record phase_report =
  to_create :: nat
  to_update :: nat
  identical :: nat
  created :: "json list"
  updated :: "json list"
  errors :: "error_entry list"

record report =
  patterns :: phase_report
  profiles :: phase_report




section \<open>Apply driver\<close>

text \<open>
  The four apply loops of \<^verbatim>\<open>sync\<close> have one shape:
  \<^verbatim>\<open>for item in items:
      try:
          result = call(item)
          report[kind][done].append(name(item))
      except Exception as e:
          report[kind]['errors'].append(f"Error ... {name(item)}: {str(e)}")\<close>
  The name is read after the call, in the \<^verbatim>\<open>try\<close> block or in the handler; an
  exception from reading it in the handler leaves the loop.
\<close>

fun try_each ::
  "('i \<Rightarrow> (json, 'w) action) \<Rightarrow> ('i \<Rightarrow> py_error + json)
    \<Rightarrow> (json \<Rightarrow> report \<Rightarrow> report) \<Rightarrow> (json \<Rightarrow> py_error \<Rightarrow> report \<Rightarrow> report)
    \<Rightarrow> 'i list \<Rightarrow> report \<Rightarrow> (report, 'w) action" where
  "try_each call name_of done failed [] report st = (Inr report, st)"
| "try_each call name_of done failed (item # rest) report st =
     (case call item st of (result, st') \<Rightarrow>
        (case name_of item of
           Inl e \<Rightarrow> (Inl e, st')
         | Inr n \<Rightarrow>
             try_each call name_of done failed rest
               (case result of Inr r \<Rightarrow> done n report | Inl e \<Rightarrow> failed n e report) st'))"

definition pattern_created :: "json \<Rightarrow> report \<Rightarrow> report" where
  "pattern_created n r = r\<lparr>patterns := (patterns r)\<lparr>created := created (patterns r) @ [n]\<rparr>\<rparr>"

definition pattern_updated :: "json \<Rightarrow> report \<Rightarrow> report" where
  "pattern_updated n r = r\<lparr>patterns := (patterns r)\<lparr>updated := updated (patterns r) @ [n]\<rparr>\<rparr>"

definition pattern_error :: "error_entry \<Rightarrow> report \<Rightarrow> report" where
  "pattern_error x r = r\<lparr>patterns := (patterns r)\<lparr>errors := errors (patterns r) @ [x]\<rparr>\<rparr>"

definition profile_created :: "json \<Rightarrow> report \<Rightarrow> report" where
  "profile_created n r = r\<lparr>profiles := (profiles r)\<lparr>created := created (profiles r) @ [n]\<rparr>\<rparr>"

definition profile_updated :: "json \<Rightarrow> report \<Rightarrow> report" where
  "profile_updated n r = r\<lparr>profiles := (profiles r)\<lparr>updated := updated (profiles r) @ [n]\<rparr>\<rparr>"

definition profile_error :: "error_entry \<Rightarrow> report \<Rightarrow> report" where
  "profile_error x r = r\<lparr>profiles := (profiles r)\<lparr>errors := errors (profiles r) @ [x]\<rparr>\<rparr>"

definition create_patterns :: "'w http \<Rightarrow> string \<Rightarrow> json list \<Rightarrow> report \<Rightarrow> (report, 'w) action" where
  "create_patterns http token =
     try_each (\<lambda>pattern. create_pattern http pattern token)
       (\<lambda>pattern. subscript pattern ''name'')
       pattern_created (\<lambda>n e. pattern_error (ErrorCreating n e))"

definition update_patterns ::
  "'w http \<Rightarrow> string \<Rightarrow> update_item list \<Rightarrow> report \<Rightarrow> (report, 'w) action" where
  "update_patterns http token =
     try_each (\<lambda>item. bindS (liftE (subscript (destination item) ''id'')) (\<lambda>dest_id.
                  update_pattern http dest_id (source item) token))
       (\<lambda>item. subscript (source item) ''name'')
       pattern_updated (\<lambda>n e. pattern_error (ErrorUpdating n e))"

definition create_profiles ::
  "'w http \<Rightarrow> string \<Rightarrow> id_mapping \<Rightarrow> id_mapping \<Rightarrow> json list \<Rightarrow> report \<Rightarrow> (report, 'w) action" where
  "create_profiles http token pattern_id_mapping profile_id_mapping =
     try_each (\<lambda>profile. create_profile http profile token pattern_id_mapping
                  (Some profile_id_mapping))
       (\<lambda>profile. subscript profile ''name'')
       profile_created (\<lambda>n e. profile_error (ErrorCreating n e))"

definition update_profiles ::
  "'w http \<Rightarrow> string \<Rightarrow> id_mapping \<Rightarrow> id_mapping \<Rightarrow> update_item list \<Rightarrow> report
    \<Rightarrow> (report, 'w) action" where
  "update_profiles http token pattern_id_mapping profile_id_mapping =
     try_each (\<lambda>item. bindS (liftE (subscript (destination item) ''id'')) (\<lambda>dest_id.
                  update_profile http dest_id (source item) token pattern_id_mapping
                    (Some profile_id_mapping)))
       (\<lambda>item. subscript (source item) ''name'')
       profile_updated (\<lambda>n e. profile_error (ErrorUpdating n e))"

section \<open>Orchestrator\<close>

text \<open>The fields of \<^verbatim>\<open>self\<close> that \<^verbatim>\<open>sync\<close> reads: the source token and name, and
  the authenticated destinations with their names and tokens.\<close>

record tenant =
  name :: string
  token :: string


definition empty_phase :: "nat \<Rightarrow> nat \<Rightarrow> nat \<Rightarrow> phase_report" where
  "empty_phase c u i =
     \<lparr>to_create = c, to_update = u, identical = i, created = [], updated = [], errors = []\<rparr>"








section \<open>Vocabulary of the properties\<close>

text \<open>
  Reading a structure without failing: \<open>field k d\<close> is \<^verbatim>\<open>d.get(k)\<close> on a
  dictionary and \<^verbatim>\<open>None\<close> elsewhere; \<open>items v\<close> are the elements of a list,
  \<open>entries d\<close> the key-value pairs of a dictionary.
\<close>

fun field :: "string \<Rightarrow> json \<Rightarrow> json" where
  "field k (JDict kvs) = (case map_of kvs k of None \<Rightarrow> JNull | Some v \<Rightarrow> v)"
| "field k _ = JNull"

fun items :: "json \<Rightarrow> json list" where
  "items (JList xs) = xs"
| "items _ = []"

fun entries :: "json \<Rightarrow> (string \<times> json) list" where
  "entries (JDict kvs) = kvs"
| "entries _ = []"

fun is_dict :: "json \<Rightarrow> bool" where
  "is_dict (JDict kvs) = True"
| "is_dict _ = False"

fun hashable :: "json \<Rightarrow> bool" where
  "hashable (JList xs) = False"
| "hashable (JDict kvs) = False"
| "hashable _ = True"

text \<open>Rewriting values in place: \<open>map_items\<close> on the elements of a list,
  \<open>map_entries\<close> on the values of a dictionary, by key.\<close>

fun map_items :: "(json \<Rightarrow> json) \<Rightarrow> json \<Rightarrow> json" where
  "map_items f (JList xs) = JList (map f xs)"
| "map_items f v = v"

fun map_entries :: "(string \<Rightarrow> json \<Rightarrow> json) \<Rightarrow> json \<Rightarrow> json" where
  "map_entries h (JDict kvs) = JDict (map (\<lambda>kv. (fst kv, h (fst kv) (snd kv))) kvs)"
| "map_entries h v = v"

lemma size_items: "x \<in> set (items v) \<Longrightarrow> size x < size v"
  by (cases v) (auto dest: size_list_elem)

lemma size_entries: "(k, v) \<in> set (entries t) \<Longrightarrow> size v < size t"
proof (cases t)
  case (JDict kvs)
  assume "(k, v) \<in> set (entries t)"
  with JDict have "(k, v) \<in> set kvs" by simp
  then have "size v < size (JDict kvs)" by (induction kvs) auto
  with JDict show ?thesis by simp
qed simp_all

lemma field_in_entries: "truthy (field k t) \<Longrightarrow> (k, field k t) \<in> set (entries t)"
  by (cases t) (auto split: option.splits dest: map_of_SomeD)

lemma size_items_field [termination_simp]:
  "x \<in> set (items (field k t)) \<Longrightarrow> size x < size t"
proof -
  assume x: "x \<in> set (items (field k t))"
  then have "truthy (field k t)" by (cases "field k t") auto
  then have "size (field k t) < size t" by (auto dest!: field_in_entries size_entries)
  with size_items [OF x] show ?thesis by simp
qed

lemma size_items_entries [termination_simp]:
  "(k, v) \<in> set (entries t) \<Longrightarrow> x \<in> set (items v) \<Longrightarrow> size x < size t"
  by (auto dest!: size_entries size_items)

lemma map_items_cong [fundef_cong]:
  "v = w \<Longrightarrow> (\<And>x. x \<in> set (items w) \<Longrightarrow> f x = g x) \<Longrightarrow> map_items f v = map_items g w"
  by (cases w) auto

lemma map_entries_cong [fundef_cong]:
  "d = e \<Longrightarrow> (\<And>k v. (k, v) \<in> set (entries e) \<Longrightarrow> h k v = h' k v)
     \<Longrightarrow> map_entries h d = map_entries h' e"
  by (cases e) auto














text \<open>What the map does to one id: \<^verbatim>\<open>m.get(i, i)\<close>.\<close>

definition translate :: "id_mapping \<Rightarrow> json \<Rightarrow> json" where
  "translate m i = (case to_key i of Inl e \<Rightarrow> i
     | Inr k \<Rightarrow> (case map_of m k of None \<Rightarrow> i | Some v \<Rightarrow> v))"

text \<open>
  Well-formed input, after the data model.  A list-valued field is absent, empty,
  \<^verbatim>\<open>None\<close> or a list of well-formed elements; a rule item is a dictionary with a
  hashable \<^verbatim>\<open>id\<close>; an expression node is a dictionary whose \<^verbatim>\<open>rule_item\<close>, when
  there is one, is a rule item and whose \<^verbatim>\<open>sub_expressions\<close> are expression nodes.
\<close>

definition opt_list :: "(json \<Rightarrow> bool) \<Rightarrow> json \<Rightarrow> bool" where
  "opt_list P v = (case v of JList xs \<Rightarrow> list_all P xs | _ \<Rightarrow> \<not> truthy v)"

lemma opt_list_cong [fundef_cong]:
  "v = w \<Longrightarrow> (\<And>x. x \<in> set (items w) \<Longrightarrow> P x = Q x) \<Longrightarrow> opt_list P v = opt_list Q w"
  by (cases w) (auto simp: opt_list_def list_all_iff)









text \<open>
  The profile the amended C5 describes, written from its words: in every
  detection rule whose \<^verbatim>\<open>rule_type\<close> is \<^verbatim>\<open>multi_profile\<close>, the list
  \<^verbatim>\<open>data_profile_ids\<close> inside the rule's \<^verbatim>\<open>multi_profile\<close> object has each element
  replaced by \<^verbatim>\<open>profileMap.get(id, id)\<close>; nothing else changes.
\<close>

definition rewrite_detection_rule :: "id_mapping \<Rightarrow> json \<Rightarrow> json" where
  "rewrite_detection_rule m detection_rule =
     (if field ''rule_type'' detection_rule = JStr ''multi_profile'' then
        map_entries (\<lambda>k v. if k = ''multi_profile'' then
            map_entries (\<lambda>k v. if k = ''data_profile_ids'' then map_items (translate m) v else v) v
          else v) detection_rule
      else detection_rule)"

definition rewrite_profile_refs :: "id_mapping \<Rightarrow> json \<Rightarrow> json" where
  "rewrite_profile_refs m =
     map_entries (\<lambda>k v. if k = ''detection_rules'' then map_items (rewrite_detection_rule m) v
       else v)"

text \<open>Dictionaries have each key once.\<close>

definition unique_keys :: "json \<Rightarrow> bool" where
  "unique_keys d = (is_dict d \<and> distinct (map fst (entries d)))"

definition wf_multi_profile :: "json \<Rightarrow> bool" where
  "wf_multi_profile mp = (unique_keys mp \<and> opt_list hashable (field ''data_profile_ids'' mp))"

definition wf_profile_rule :: "json \<Rightarrow> bool" where
  "wf_profile_rule detection_rule =
     (unique_keys detection_rule
      \<and> (field ''rule_type'' detection_rule = JStr ''multi_profile''
           \<and> truthy (field ''multi_profile'' detection_rule)
          \<longrightarrow> wf_multi_profile (field ''multi_profile'' detection_rule)))"

definition wf_granular_profile :: "json \<Rightarrow> bool" where
  "wf_granular_profile profile =
     (unique_keys profile \<and> opt_list wf_profile_rule (field ''detection_rules'' profile))"



text \<open>The name of an entity as a dictionary key, when it has one.\<close>

definition key_of :: "json \<Rightarrow> key option" where
  "key_of p = (case subscript p ''name'' of Inl e \<Rightarrow> None
     | Inr n \<Rightarrow> (case to_key n of Inl e \<Rightarrow> None | Inr k \<Rightarrow> Some k))"

text \<open>The last entity of a list that carries the name \<open>k\<close>.\<close>

fun last_named :: "key \<Rightarrow> json list \<Rightarrow> json option" where
  "last_named k [] = None"
| "last_named k (p # ps) =
     (case last_named k ps of
        Some q \<Rightarrow> Some q
      | None \<Rightarrow> if key_of p = Some k then Some p else None)"

text \<open>The source side of a comparison: normalized, then rewritten through the
  maps that are given.\<close>

definition prepare :: "id_mapping option \<Rightarrow> id_mapping option \<Rightarrow> json \<Rightarrow> py_error + json" where
  "prepare pattern_id_mapping profile_id_mapping source_pattern =
     bindE (normalize_pattern source_pattern) (\<lambda>source_norm.
     bindE (remap_if_given remap_pattern_ids pattern_id_mapping source_norm) (\<lambda>source_norm.
       remap_if_given remap_profile_ids profile_id_mapping source_norm))"

text \<open>What the classifier decides for one entry of \<^verbatim>\<open>source_dict\<close>.\<close>

datatype verdict = Create json | Update update_item | Same json

definition judge ::
  "(json \<Rightarrow> json \<Rightarrow> json) \<Rightarrow> (key \<times> json) list \<Rightarrow> id_mapping option \<Rightarrow> id_mapping option
    \<Rightarrow> key \<times> json \<Rightarrow> py_error + verdict" where
  "judge D dest_dict pm qm entry =
     (case map_of dest_dict (fst entry) of
        None \<Rightarrow> Inr (Create (snd entry))
      | Some dest_pattern \<Rightarrow>
          bindE (prepare pm qm (snd entry)) (\<lambda>source_norm.
          bindE (normalize_pattern dest_pattern) (\<lambda>dest_norm.
            Inr (if truthy (D source_norm dest_norm)
                 then Update \<lparr>source = snd entry, destination = dest_pattern,
                                diff = D source_norm dest_norm\<rparr>
                 else Same (snd entry)))))"

fun subject :: "verdict \<Rightarrow> json" where
  "subject (Create p) = p"
| "subject (Update u) = source u"
| "subject (Same p) = p"

fun creations :: "verdict list \<Rightarrow> json list" where
  "creations [] = []"
| "creations (Create p # vs) = p # creations vs"
| "creations (v # vs) = creations vs"

fun updates :: "verdict list \<Rightarrow> update_item list" where
  "updates [] = []"
| "updates (Update u # vs) = u # updates vs"
| "updates (v # vs) = updates vs"

fun sames :: "verdict list \<Rightarrow> json list" where
  "sames [] = []"
| "sames (Same p # vs) = p # sames vs"
| "sames (v # vs) = sames vs"


text \<open>The source entities of the three result lists, together.\<close>

definition classified :: "json list \<Rightarrow> update_item list \<Rightarrow> json list \<Rightarrow> json list" where
  "classified tc tu idn = tc @ map source tu @ idn"


text \<open>
  Two values that differ only in the order of the elements of lists, or only in
  the value of the excluded field, at any depth.
\<close>

inductive same_modulo :: "json \<Rightarrow> json \<Rightarrow> bool" where
  same: "same_modulo a a"
| reordered: "mset ys = mset xs \<Longrightarrow> same_modulo (JList xs) (JList ys)"
| elements: "list_all2 same_modulo xs ys \<Longrightarrow> same_modulo (JList xs) (JList ys)"
| fields:
    "list_all2 (\<lambda>kv kv'. fst kv = fst kv'
        \<and> (fst kv = excluded_key \<or> same_modulo (snd kv) (snd kv'))) kvs kvs'
     \<Longrightarrow> same_modulo (JDict kvs) (JDict kvs')"
| chain: "same_modulo a b \<Longrightarrow> same_modulo b c \<Longrightarrow> same_modulo a c"








text \<open>
  Calling every item in turn, whatever the calls return: the results, and the
  state they leave.
\<close>

fun attempts :: "('i \<Rightarrow> (json, 'w) action) \<Rightarrow> 'i list \<Rightarrow> 'w st \<Rightarrow> (py_error + json) list \<times> 'w st" where
  "attempts call [] st = ([], st)"
| "attempts call (x # xs) st =
     (case call x st of (result, st1) \<Rightarrow>
        (case attempts call xs st1 of (results, st2) \<Rightarrow> (result # results, st2)))"

text \<open>The names whose call returned, and the names whose call raised, with the
  exception.\<close>

fun succeeded :: "json list \<Rightarrow> (py_error + json) list \<Rightarrow> json list" where
  "succeeded (n # ns) (Inr r # rs) = n # succeeded ns rs"
| "succeeded (n # ns) (Inl e # rs) = succeeded ns rs"
| "succeeded _ _ = []"

fun failures :: "json list \<Rightarrow> (py_error + json) list \<Rightarrow> (json \<times> py_error) list" where
  "failures (n # ns) (Inr r # rs) = failures ns rs"
| "failures (n # ns) (Inl e # rs) = (n, e) # failures ns rs"
| "failures _ _ = []"

fun record_outcome ::
  "(json \<Rightarrow> report \<Rightarrow> report) \<Rightarrow> (json \<Rightarrow> py_error \<Rightarrow> report \<Rightarrow> report)
    \<Rightarrow> report \<Rightarrow> json \<times> (py_error + json) \<Rightarrow> report" where
  "record_outcome done failed r (n, Inr v) = done n r"
| "record_outcome done failed r (n, Inl e) = failed n e r"










section \<open>Example inputs\<close>



text \<open>A profile whose first rule refers to other profiles through its
  \<^verbatim>\<open>multi_profile\<close> object, and one shaped as a rule that carries
  \<^verbatim>\<open>data_profile_ids\<close> itself.\<close>

definition granular_profile :: json where
  "granular_profile = JDict [
     (''name'', JStr ''Granular''),
     (''detection_rules'', JList [
        JDict [(''rule_type'', JStr ''multi_profile''),
               (''multi_profile'', JDict [(''operator_type'', JStr ''or''),
                                          (''data_profile_ids'', JList [JInt 1, JInt 2, JInt 1])])],
        JDict [(''rule_type'', JStr ''expression_tree''),
               (''multi_profile'', JDict [(''data_profile_ids'', JList [JInt 1])])]])]"

definition flat_profile :: json where
  "flat_profile = JDict [
     (''name'', JStr ''Flat''),
     (''detection_rules'', JList [
        JDict [(''rule_type'', JStr ''multi_profile''),
               (''data_profile_ids'', JList [JInt 1, JInt 2])]])]"






text \<open>A source and a destination pattern that differ in the order of a list and
  in the value of the excluded field.\<close>

definition reordered_source :: "json list" where
  "reordered_source =
    [JDict [(''id'', JStr ''s1''), (''name'', JStr ''SSN''),
            (''keywords'', JList [JStr ''a'', JStr ''b'']),
            (''rule'', JDict [(''supported_confidence_levels'', JList [JStr ''low''])])]]"

definition reordered_dest :: "json list" where
  "reordered_dest =
    [JDict [(''id'', JStr ''d1''), (''name'', JStr ''SSN''),
            (''keywords'', JList [JStr ''b'', JStr ''a'']),
            (''rule'', JDict [(''supported_confidence_levels'', JList [JStr ''low'', JStr ''high''])])]]"



text \<open>
  A small world for the examples.  The source tenant (token \<^verbatim>\<open>S\<close>) has three
  custom patterns and a predefined one, and no profile.  The tenant with token
  \<^verbatim>\<open>P\<close> has nothing; listing its patterns succeeds.  The tenant with token \<^verbatim>\<open>X\<close>
  answers every listing with an error.  Creating the pattern named \<^verbatim>\<open>A\<close> is
  refused, every other creation or update is accepted.
\<close>

definition pattern_A :: json where
  "pattern_A = JDict [(''id'', JStr ''s1''), (''name'', JStr ''A''), (''type'', JStr ''custom'')]"

definition pattern_B :: json where
  "pattern_B = JDict [(''id'', JStr ''s2''), (''name'', JStr ''B''), (''type'', JStr ''custom'')]"

definition pattern_C :: json where
  "pattern_C = JDict [(''id'', JStr ''s3''), (''name'', JStr ''C''), (''type'', JStr ''custom'')]"

definition pattern_X :: json where
  "pattern_X = JDict [(''id'', JStr ''s0''), (''name'', JStr ''X''), (''type'', JStr ''predefined'')]"

fun example_http :: "unit http" where
  "example_http (ListPatterns t) w =
     (if t = ''S'' then Inr (JDict [(''resources'', JList [pattern_A, pattern_B, pattern_C, pattern_X])])
      else if t = ''P'' then Inr (JDict [(''resources'', JList [pattern_X])])
      else Inl (ApiError ''500''), w)"
| "example_http (ListProfiles t) w =
     (if t = ''X'' then Inl (ApiError ''500'') else Inr (JList []), w)"
| "example_http (CreatePattern t body) w =
     (if field ''name'' body = JStr ''A'' then Inl (ApiError ''409'') else Inr body, w)"
| "example_http r w = (Inr (JDict [(''status'', JStr ''updated'')]), w)"



section \<open>Properties of the normalizer\<close>

lemma map_of_filter_key:
  "map_of (filter (\<lambda>(k, v). P k) kvs) = map_of kvs |` {k. P k}"
  by (induction kvs) (auto simp: restrict_map_def fun_eq_iff)

text \<open>
  C2.  For every entity (a dictionary) \<open>normalize_pattern\<close> returns a dictionary in
  which none of the eight reserved metadata keys is present, in which every other
  key has exactly the value it had, nested structures included, and whose keys
  are the remaining keys in their original order.
\<close>

theorem normalize_pattern_strips_metadata:
  "\<exists>kvs'. normalize_pattern (JDict kvs) = Inr (JDict kvs')
     \<and> fst ` set kvs' \<inter> METADATA_FIELDS = {}
     \<and> map_of kvs' = map_of kvs |` (- METADATA_FIELDS)
     \<and> map fst kvs' = filter (\<lambda>k. k \<notin> METADATA_FIELDS) (map fst kvs)"
proof -
  let ?kvs' = "filter (\<lambda>(k, v). k \<notin> METADATA_FIELDS) kvs"
  have "fst ` set ?kvs' \<inter> METADATA_FIELDS = {}" by auto
  moreover have "map_of ?kvs' = map_of kvs |` (- METADATA_FIELDS)"
    using map_of_filter_key [of "\<lambda>k. k \<notin> METADATA_FIELDS" kvs]
    by (simp add: Compl_eq)
  moreover have "map fst ?kvs' = filter (\<lambda>k. k \<notin> METADATA_FIELDS) (map fst kvs)"
    by (induction kvs) auto
  ultimately show ?thesis by simp
qed

section \<open>Properties of the reference rewriter\<close>

lemma is_dict_entries: "is_dict d \<Longrightarrow> d = JDict (entries d)"
  by (cases d) auto


lemma set_item_keys: "map_of kvs k = Some v \<Longrightarrow> map fst (set_item kvs k v') = map fst kvs"
  by (induction kvs) (auto split: if_splits)


lemma truthy_field_map_of:
  "truthy (field k (JDict kvs)) \<Longrightarrow> map_of kvs k = Some (field k (JDict kvs))"
  by (auto split: option.splits)



lemma opt_list_truthy: "opt_list P v \<Longrightarrow> truthy v \<Longrightarrow> v = JList (items v) \<and> list_all P (items v)"
  by (cases v) (auto simp: opt_list_def)





lemma map_of_None_iff: "map_of m k = None \<longleftrightarrow> k \<notin> fst ` set m"
  by (simp add: map_of_eq_None_iff)






lemma truthy_map_entries [simp]: "truthy (map_entries h d) = truthy d"
  by (cases d) auto









section \<open>Properties of the profile reference rewriter\<close>

lemma set_item_distinct:
  "distinct (map fst kvs) \<Longrightarrow> map_of kvs k = Some v
     \<Longrightarrow> set_item kvs k v' = map (\<lambda>kv. (fst kv, if fst kv = k then v' else snd kv)) kvs"
proof (induction kvs)
  case Nil
  then show ?case by simp
next
  case (Cons a kvs)
  show ?case
  proof (cases "fst a = k")
    case True
    with Cons.prems have "k \<notin> fst ` set kvs" by auto
    then have "map (\<lambda>kv. (fst kv, if fst kv = k then v' else snd kv)) kvs = kvs"
      by (intro map_idI) force
    with True show ?thesis by (cases a) simp
  next
    case False
    with Cons show ?thesis by (cases a) auto
  qed
qed

lemma map_entries_id: "(\<And>k v. (k, v) \<in> set (entries d) \<Longrightarrow> h k v = v) \<Longrightarrow> map_entries h d = d"
  by (cases d) (auto intro!: map_idI)

lemma unique_keys_field: "unique_keys d \<Longrightarrow> (k, v) \<in> set (entries d) \<Longrightarrow> field k d = v"
  by (cases d) (auto simp: unique_keys_def)

text \<open>On a dictionary with unique keys \<open>on_field\<close> is a rewriting of the one entry.\<close>

lemma on_field_map_entries:
  assumes u: "unique_keys d"
    and body: "truthy (field k d) \<Longrightarrow> body (field k d) = Inr (f (field k d))"
    and f: "\<not> truthy (field k d) \<Longrightarrow> f (field k d) = field k d"
  shows "on_field k body d = Inr (map_entries (\<lambda>k' v. if k' = k then f v else v) d)"
proof -
  from u obtain kvs where kvs: "d = JDict kvs" and dist: "distinct (map fst kvs)"
    by (cases d) (auto simp: unique_keys_def)
  show ?thesis
  proof (cases "truthy (field k d)")
    case False
    have "map_entries (\<lambda>k' v. if k' = k then f v else v) d = d"
    proof (rule map_entries_id)
      fix k' v assume "(k', v) \<in> set (entries d)"
      with u have "field k' d = v" by (rule unique_keys_field)
      with f [OF False] show "(if k' = k then f v else v) = v" by auto
    qed
    moreover have "on_field k body d = Inr d"
      using False unfolding kvs by (simp add: on_field_def)
    ultimately show ?thesis by simp
  next
    case True
    then obtain v where m: "map_of kvs k = Some v" and v: "field k d = v"
      unfolding kvs by (auto split: option.splits)
    from True body v have b: "body v = Inr (f v)" and t: "truthy v" by simp_all
    have "on_field k body d = Inr (JDict (set_item kvs k (f v)))"
      using t b m unfolding kvs by (simp add: on_field_def)
    also have "set_item kvs k (f v)
        = map (\<lambda>kv. (fst kv, if fst kv = k then f v else snd kv)) kvs"
      using dist m by (rule set_item_distinct)
    also have "\<dots> = map (\<lambda>kv. (fst kv, if fst kv = k then f (snd kv) else snd kv)) kvs"
    proof (rule map_cong [OF refl])
      fix kv assume "kv \<in> set kvs"
      then have "(fst kv, snd kv) \<in> set (entries d)" unfolding kvs by simp
      with u have "field (fst kv) d = snd kv" by (rule unique_keys_field)
      with v show "(fst kv, if fst kv = k then f v else snd kv)
          = (fst kv, if fst kv = k then f (snd kv) else snd kv)" by auto
    qed
    finally show ?thesis unfolding kvs by simp
  qed
qed

lemma mapE_map: "(\<And>x. x \<in> set xs \<Longrightarrow> f x = Inr (g x)) \<Longrightarrow> mapE f xs = Inr (map g xs)"
  by (induction xs) simp_all

lemma for_each_map_items:
  assumes "opt_list P v" "truthy v" "\<And>x. P x \<Longrightarrow> f x = Inr (g x)"
  shows "for_each f v = Inr (map_items g v)"
proof -
  from assms(1,2) have l: "v = JList (items v)" and P: "list_all P (items v)"
    by (simp_all add: opt_list_truthy)
  have "mapE f (items v) = Inr (map g (items v))"
    using P assms(3) by (intro mapE_map) (simp add: list_all_iff)
  then have "for_each f (JList (items v)) = Inr (map_items g (JList (items v)))" by simp
  with l show ?thesis by simp
qed

lemma not_truthy_map_items: "\<not> truthy v \<Longrightarrow> map_items g v = v"
  by (cases v) auto

lemma not_truthy_map_entries: "\<not> truthy v \<Longrightarrow> map_entries h v = v"
  by (cases v) auto

lemma to_key_translate:
  "hashable i \<Longrightarrow> bindE (to_key i) (\<lambda>k. Inr (case map_of m k of None \<Rightarrow> i | Some v \<Rightarrow> v))
     = Inr (translate m i)"
  by (cases i) (auto simp: translate_def split: option.splits)

lemma remap_id_list_wf:
  assumes "opt_list hashable ids" "truthy ids"
  shows "remap_id_list m ids = Inr (map_items (translate m) ids)"
proof -
  from assms have l: "ids = JList (items ids)" and h: "list_all hashable (items ids)"
    by (simp_all add: opt_list_truthy)
  have "mapE (\<lambda>profile_id. bindE (to_key profile_id) (\<lambda>k.
          Inr (case map_of m k of None \<Rightarrow> profile_id | Some v \<Rightarrow> v))) (items ids)
      = Inr (map (translate m) (items ids))"
    using h by (intro mapE_map to_key_translate) (simp add: list_all_iff)
  then have "remap_id_list m (JList (items ids)) = Inr (map_items (translate m) (JList (items ids)))"
    by (simp add: remap_id_list_def)
  with l show ?thesis by simp
qed

lemma remap_multi_profile_wf:
  assumes "wf_multi_profile mp"
  shows "on_field ''data_profile_ids'' (remap_id_list m) mp
    = Inr (map_entries (\<lambda>k v. if k = ''data_profile_ids'' then map_items (translate m) v else v) mp)"
proof (rule on_field_map_entries)
  show "unique_keys mp" using assms by (simp add: wf_multi_profile_def)
  show "remap_id_list m (field ''data_profile_ids'' mp)
      = Inr (map_items (translate m) (field ''data_profile_ids'' mp))"
    if "truthy (field ''data_profile_ids'' mp)"
    using assms that by (intro remap_id_list_wf) (simp_all add: wf_multi_profile_def)
  show "map_items (translate m) (field ''data_profile_ids'' mp) = field ''data_profile_ids'' mp"
    if "\<not> truthy (field ''data_profile_ids'' mp)"
    using that by (rule not_truthy_map_items)
qed

lemma dict_get_field: "is_dict d \<Longrightarrow> dict_get d k = Inr (field k d)"
  by (cases d) auto

lemma remap_detection_rule_wf:
  assumes "wf_profile_rule dr"
  shows "remap_detection_rule m dr = Inr (rewrite_detection_rule m dr)"
proof -
  let ?inner = "map_entries (\<lambda>k v. if k = ''data_profile_ids'' then map_items (translate m) v else v)"
  from assms have u: "unique_keys dr" by (simp add: wf_profile_rule_def)
  then have g: "dict_get dr ''rule_type'' = Inr (field ''rule_type'' dr)"
    by (simp add: dict_get_field unique_keys_def)
  show ?thesis
  proof (cases "field ''rule_type'' dr = JStr ''multi_profile''")
    case False
    with g show ?thesis by (simp add: remap_detection_rule_def rewrite_detection_rule_def)
  next
    case True
    have "on_field ''multi_profile'' (on_field ''data_profile_ids'' (remap_id_list m)) dr
        = Inr (map_entries (\<lambda>k v. if k = ''multi_profile'' then ?inner v else v) dr)"
    proof (rule on_field_map_entries [OF u])
      assume t: "truthy (field ''multi_profile'' dr)"
      with assms True have "wf_multi_profile (field ''multi_profile'' dr)"
        by (simp add: wf_profile_rule_def)
      then show "on_field ''data_profile_ids'' (remap_id_list m) (field ''multi_profile'' dr)
          = Inr (?inner (field ''multi_profile'' dr))"
        by (rule remap_multi_profile_wf)
    next
      assume "\<not> truthy (field ''multi_profile'' dr)"
      then show "?inner (field ''multi_profile'' dr) = field ''multi_profile'' dr"
        by (rule not_truthy_map_entries)
    qed
    with g True show ?thesis by (simp add: remap_detection_rule_def rewrite_detection_rule_def)
  qed
qed

text \<open>
  C5, amended.  For every well-formed profile and every profile map,
  \<open>remap_profile_ids\<close> returns the profile in which, for each element of
  \<^verbatim>\<open>detection_rules\<close> whose \<^verbatim>\<open>rule_type\<close> is \<^verbatim>\<open>multi_profile\<close>, the list
  \<^verbatim>\<open>data_profile_ids\<close> of the rule's \<^verbatim>\<open>multi_profile\<close> object is rewritten
  element by element through \<^verbatim>\<open>profileMap.get(id, id)\<close>: mapped ids are replaced,
  unmapped ids pass through; rules of any other type and every other field are
  unchanged.
\<close>

theorem remap_profile_ids_rewrites_nested_ids:
  assumes "wf_granular_profile profile"
  shows "remap_profile_ids profile m = Inr (rewrite_profile_refs m profile)"
  unfolding remap_profile_ids_def rewrite_profile_refs_def
proof (rule on_field_map_entries)
  show "unique_keys profile" using assms by (simp add: wf_granular_profile_def)
  show "for_each (remap_detection_rule m) (field ''detection_rules'' profile)
      = Inr (map_items (rewrite_detection_rule m) (field ''detection_rules'' profile))"
    if "truthy (field ''detection_rules'' profile)"
  proof (rule for_each_map_items [where P = wf_profile_rule])
    show "opt_list wf_profile_rule (field ''detection_rules'' profile)"
      using assms by (simp add: wf_granular_profile_def)
    show "truthy (field ''detection_rules'' profile)" by (rule that)
    show "remap_detection_rule m x = Inr (rewrite_detection_rule m x)" if "wf_profile_rule x" for x
      using that by (rule remap_detection_rule_wf)
  qed
  show "map_items (rewrite_detection_rule m) (field ''detection_rules'' profile)
      = field ''detection_rules'' profile" if "\<not> truthy (field ''detection_rules'' profile)"
    using that by (rule not_truthy_map_items)
qed

theorem remap_profile_ids_witness:
  "wf_granular_profile granular_profile \<and>
   remap_profile_ids granular_profile [(KInt 1, JInt 9)] = Inr (JDict [
     (''name'', JStr ''Granular''),
     (''detection_rules'', JList [
        JDict [(''rule_type'', JStr ''multi_profile''),
               (''multi_profile'', JDict [(''operator_type'', JStr ''or''),
                                          (''data_profile_ids'', JList [JInt 9, JInt 2, JInt 9])])],
        JDict [(''rule_type'', JStr ''expression_tree''),
               (''multi_profile'', JDict [(''data_profile_ids'', JList [JInt 1])])]])])"
proof -
  have wf: "wf_granular_profile granular_profile" by code_simp
  have "rewrite_profile_refs [(KInt 1, JInt 9)] granular_profile = JDict [
     (''name'', JStr ''Granular''),
     (''detection_rules'', JList [
        JDict [(''rule_type'', JStr ''multi_profile''),
               (''multi_profile'', JDict [(''operator_type'', JStr ''or''),
                                          (''data_profile_ids'', JList [JInt 9, JInt 2, JInt 9])])],
        JDict [(''rule_type'', JStr ''expression_tree''),
               (''multi_profile'', JDict [(''data_profile_ids'', JList [JInt 1])])]])]"
    by code_simp
  with remap_profile_ids_rewrites_nested_ids [OF wf, of "[(KInt 1, JInt 9)]"] wf
  show ?thesis by simp
qed

text \<open>
  C5 as stated, with the rule shaped as the data model has it (the list
  \<^verbatim>\<open>data_profile_ids\<close> a field of the rule itself): the rewriter returns the
  profile as it was, the id \<open>1\<close> is still there although the map sends it
  to \<open>9\<close>.
\<close>

theorem remap_profile_ids_flat_counterexample:
  "remap_profile_ids flat_profile [(KInt 1, JInt 9)] = Inr flat_profile
   \<and> field ''data_profile_ids'' (hd (items (field ''detection_rules'' flat_profile)))
       = JList [JInt 1, JInt 2]
   \<and> map (translate [(KInt 1, JInt 9)]) [JInt 1, JInt 2] = [JInt 9, JInt 2]"
  by code_simp


section \<open>Properties of the classifier\<close>

lemma compare_loop_judge:
  "compare_loop D dd pm qm its (tc, tu, idn)
     = bindE (mapE (judge D dd pm qm) its) (\<lambda>vs.
         Inr (tc @ creations vs, tu @ updates vs, idn @ sames vs))"
proof (induction its arbitrary: tc tu idn)
  case Nil
  then show ?case by simp
next
  case (Cons it its)
  obtain k p where it: "it = (k, p)" by (cases it)
  show ?case
  proof (cases "map_of dd k")
    case None
    then show ?thesis unfolding it by (simp add: Cons.IH judge_def bindE_def split: sum.splits)
  next
    case (Some dp)
    show ?thesis
    proof (cases "judge D dd pm qm (k, p)")
      case (Inl e)
      with Some show ?thesis unfolding it
        by (auto simp: judge_def prepare_def bindE_def split: sum.splits if_splits)
    next
      case (Inr v)
      with Some show ?thesis unfolding it
        by (auto simp: Cons.IH judge_def prepare_def bindE_def split: sum.splits if_splits)
    qed
  qed
qed

lemma set_item_fst: "fst ` set (set_item kvs k v) = insert k (fst ` set kvs)"
proof (induction kvs)
  case Nil
  then show ?case by simp
next
  case (Cons a kvs)
  show ?case
  proof (cases "fst a = k")
    case True
    then show ?thesis by (cases a) auto
  next
    case False
    then have "set_item (a # kvs) k v = a # set_item kvs k v" by (cases a) simp
    with Cons show ?thesis by auto
  qed
qed

lemma set_item_distinct_keys:
  "distinct (map fst kvs) \<Longrightarrow> distinct (map fst (set_item kvs k v))"
  by (induction kvs) (auto simp: set_item_fst)

lemma last_named_Some: "last_named k ps = Some p \<Longrightarrow> key_of p = Some k \<and> p \<in> set ps"
  by (induction ps) (auto split: option.splits if_splits)


lemma index_by_name_step:
  "index_by_name (p # ps) acc = Inr d
     \<Longrightarrow> \<exists>k. key_of p = Some k \<and> index_by_name ps (set_item acc k p) = Inr d"
  by (auto simp: key_of_def bindE_Inr_iff)

lemma index_by_name_lookup:
  "index_by_name ps acc = Inr d
     \<Longrightarrow> map_of d k = (case last_named k ps of Some p \<Rightarrow> Some p | None \<Rightarrow> map_of acc k)"
proof (induction ps arbitrary: acc)
  case Nil
  then show ?case by simp
next
  case (Cons p ps)
  from index_by_name_step [OF Cons.prems] obtain kp where
    kp: "key_of p = Some kp" "index_by_name ps (set_item acc kp p) = Inr d" by blast
  from Cons.IH [OF kp(2)] kp(1) show ?case
    by (auto simp: map_of_set_item split: option.splits)
qed

lemma index_by_name_distinct:
  "index_by_name ps acc = Inr d \<Longrightarrow> distinct (map fst acc) \<Longrightarrow> distinct (map fst d)"
proof (induction ps arbitrary: acc)
  case Nil
  then show ?case by simp
next
  case (Cons p ps)
  from index_by_name_step [OF Cons.prems(1)] obtain kp where
    "index_by_name ps (set_item acc kp p) = Inr d" by blast
  moreover from Cons.prems(2) have "distinct (map fst (set_item acc kp p))"
    by (rule set_item_distinct_keys)
  ultimately show ?case by (rule Cons.IH)
qed


text \<open>The index of a list: each name once, bound to the last entity of that name.\<close>

lemma index_by_name_entries:
  assumes "index_by_name ps [] = Inr d"
  shows "distinct (map fst d)"
    and "(k, p) \<in> set d \<longleftrightarrow> last_named k ps = Some p"
    and "map_of d k = last_named k ps"
proof -
  show d: "distinct (map fst d)" using assms by (rule index_by_name_distinct) simp
  show m: "map_of d k = last_named k ps"
    using index_by_name_lookup [OF assms, of k] by (simp split: option.splits)
  from d m show "(k, p) \<in> set d \<longleftrightarrow> last_named k ps = Some p"
    by (metis map_of_eq_Some_iff)
qed

lemma mapE_Inr_all2: "mapE f xs = Inr ys \<Longrightarrow> list_all2 (\<lambda>x y. f x = Inr y) xs ys"
  by (induction xs arbitrary: ys) (auto simp: bindE_Inr_iff)

lemma judge_subject: "judge D dd pm qm it = Inr v \<Longrightarrow> subject v = snd it"
  by (auto simp: judge_def bindE_Inr_iff split: option.splits if_splits)



lemma all2_subject:
  "list_all2 (\<lambda>it v. judge D dd pm qm it = Inr v) its vs \<Longrightarrow> map subject vs = map snd its"
  by (induction its vs rule: list_all2_induct) (auto dest: judge_subject)

lemma mset_classified:
  "mset (classified (creations vs) (updates vs) (sames vs)) = mset (map subject vs)"
proof (induction vs)
  case Nil
  then show ?case by (simp add: classified_def)
next
  case (Cons v vs)
  then show ?case by (cases v) (simp_all add: classified_def)
qed



lemma sames_mem: "p \<in> set (sames vs) \<longleftrightarrow> Same p \<in> set vs"
  by (induction vs rule: sames.induct) auto


lemma all2_left_mem:
  "list_all2 P xs ys \<Longrightarrow> x \<in> set xs \<Longrightarrow> \<exists>y\<in>set ys. P x y"
  by (induction xs ys rule: list_all2_induct) auto

text \<open>What a successful run of the classifier is made of.\<close>

lemma compare_patterns_Inr:
  assumes "compare_patterns D (JList src) (JList dst) pm qm = Inr (tc, tu, idn)"
  obtains sd dd vs where "index_by_name src [] = Inr sd" "index_by_name dst [] = Inr dd"
    "list_all2 (\<lambda>it v. judge D dd pm qm it = Inr v) sd vs"
    "tc = creations vs" "tu = updates vs" "idn = sames vs"
proof -
  from assms obtain sd dd where sd: "index_by_name src [] = Inr sd"
    and dd: "index_by_name dst [] = Inr dd"
    and l: "compare_loop D dd pm qm sd ([], [], []) = Inr (tc, tu, idn)"
    by (auto simp: compare_patterns_def bindE_Inr_iff)
  from l obtain vs where vs: "mapE (judge D dd pm qm) sd = Inr vs"
    "tc = creations vs" "tu = updates vs" "idn = sames vs"
    by (auto simp: compare_loop_judge bindE_Inr_iff)
  from mapE_Inr_all2 [OF vs(1)] sd dd vs(2-4) that show thesis by blast
qed

lemma index_by_name_key:
  assumes "index_by_name ps [] = Inr d" "it \<in> set d"
  shows "key_of (snd it) = Some (fst it)"
proof -
  from assms(2) index_by_name_entries(2) [OF assms(1), of "fst it" "snd it"]
  have "last_named (fst it) ps = Some (snd it)" by simp
  then show ?thesis by (simp add: last_named_Some)
qed

text \<open>No name is classified twice.\<close>

lemma classified_names_distinct:
  assumes "compare_patterns D (JList src) (JList dst) pm qm = Inr (tc, tu, idn)"
  shows "distinct (map key_of (classified tc tu idn))"
proof -
  let ?out = "classified tc tu idn"
  from assms obtain sd dd vs where sd: "index_by_name src [] = Inr sd"
    and vs: "list_all2 (\<lambda>it v. judge D dd pm qm it = Inr v) sd vs"
    and out: "tc = creations vs" "tu = updates vs" "idn = sames vs"
    by (rule compare_patterns_Inr)
  have m: "mset ?out = mset (map snd sd)"
    unfolding out using all2_subject [OF vs] by (simp add: mset_classified)
  have "map key_of (map snd sd) = map Some (map fst sd)"
    using index_by_name_key [OF sd] by simp
  with m have "mset (map key_of ?out) = mset (map Some (map fst sd))"
    by (metis mset_map)
  moreover have "distinct (map Some (map fst sd))"
    using index_by_name_entries(1) [OF sd] by (subst distinct_map) simp
  ultimately show ?thesis by (metis mset_eq_imp_distinct_iff)
qed



section \<open>The classifier and the structural difference\<close>

lemma same_modulo_canonical: "same_modulo a b \<Longrightarrow> canonical a = canonical b"
proof (induction rule: same_modulo.induct)
  case (same a)
  show ?case by simp
next
  case (reordered ys xs)
  then have "mset (map canonical ys) = mset (map canonical xs)"
    by (metis mset_map)
  then show ?case by simp
next
  case (elements xs ys)
  then have "map canonical xs = map canonical ys"
    by (induction xs ys rule: list_all2_induct) auto
  then show ?case by simp
next
  case (fields kvs kvs')
  then have "filter (\<lambda>kv. fst kv \<noteq> excluded_key) (map (map_prod id canonical) kvs)
      = filter (\<lambda>kv. fst kv \<noteq> excluded_key) (map (map_prod id canonical) kvs')"
  proof (induction kvs kvs' rule: list_all2_induct)
    case Nil
    show ?case by simp
  next
    case (Cons kv kvs kv' kvs')
    then show ?case by (cases kv; cases kv') auto
  qed
  then show ?case by simp
next
  case (chain a b c)
  then show ?case by simp
qed

lemma spec_deep_diff_same_modulo: "same_modulo a b \<Longrightarrow> \<not> truthy (spec_deep_diff a b)"
  by (simp add: spec_deep_diff_def same_modulo_canonical)


text \<open>
  C6.  Take the entity compared for a name on each side (the last of that name in
  the source list and in the destination list).  When the source entity as
  compared (normalized, and rewritten through the maps that are given) and the
  normalized destination entity differ only in the order of the elements of
  lists, or only in the value of the field \<^verbatim>\<open>supported_confidence_levels\<close>, at any
  depth, \<open>compare_patterns\<close> puts the source entity in \<^verbatim>\<open>identical\<close>, and
  neither in \<^verbatim>\<open>to_update\<close> nor in \<^verbatim>\<open>to_create\<close>.
\<close>

theorem compare_patterns_identical_modulo_order:
  assumes run: "compare_patterns spec_deep_diff (JList src) (JList dst) pm qm = Inr (tc, tu, idn)"
    and s: "last_named k src = Some s" and d: "last_named k dst = Some d"
    and s': "prepare pm qm s = Inr s'" and d': "normalize_pattern d = Inr d'"
    and eq: "same_modulo s' d'"
  shows "s \<in> set idn \<and> s \<notin> source ` set tu \<and> s \<notin> set tc"
proof -
  from run obtain sd dd vs where sd: "index_by_name src [] = Inr sd"
    and dd: "index_by_name dst [] = Inr dd"
    and vs: "list_all2 (\<lambda>it v. judge spec_deep_diff dd pm qm it = Inr v) sd vs"
    and out: "tc = creations vs" "tu = updates vs" "idn = sames vs"
    by (rule compare_patterns_Inr)
  from s index_by_name_entries(2) [OF sd, of k s] have "(k, s) \<in> set sd" by simp
  from all2_left_mem [OF vs this] obtain v where v: "v \<in> set vs"
    "judge spec_deep_diff dd pm qm (k, s) = Inr v" by blast
  have "map_of dd k = Some d" using d by (simp add: index_by_name_entries(3) [OF dd])
  then have "judge spec_deep_diff dd pm qm (k, s) = Inr (Same s)"
    using s' d' spec_deep_diff_same_modulo [OF eq] by (simp add: judge_def)
  with v have "Same s \<in> set vs" by simp
  then have 1: "s \<in> set idn" by (simp add: out sames_mem)
  have "distinct (map key_of (classified tc tu idn))"
    using run by (rule classified_names_distinct)
  then have "distinct (tc @ map source tu @ idn)"
    unfolding classified_def by (rule distinct_map [THEN iffD1, THEN conjunct1])
  with 1 have "s \<notin> set tc" "s \<notin> source ` set tu" by auto
  with 1 show ?thesis by simp
qed


lemma reordered_same_modulo:
  "same_modulo
     (JDict [(''name'', JStr ''SSN''), (''keywords'', JList [JStr ''a'', JStr ''b'']),
            (''rule'', JDict [(''supported_confidence_levels'', JList [JStr ''low''])])])
     (JDict [(''name'', JStr ''SSN''), (''keywords'', JList [JStr ''b'', JStr ''a'']),
            (''rule'', JDict [(''supported_confidence_levels'', JList [JStr ''low'', JStr ''high''])])])"
proof (rule same_modulo.fields, simp, intro conjI disjI2)
  show "same_modulo (JStr ''SSN'') (JStr ''SSN'')" by (rule same_modulo.same)
  show "same_modulo (JList [JStr ''a'', JStr ''b'']) (JList [JStr ''b'', JStr ''a''])"
    by (rule same_modulo.reordered) simp
  show "same_modulo (JDict [(''supported_confidence_levels'', JList [JStr ''low''])])
     (JDict [(''supported_confidence_levels'', JList [JStr ''low'', JStr ''high''])])"
    by (rule same_modulo.fields) (simp add: excluded_key_def)
qed


theorem compare_patterns_reordered_witness:
  "compare_patterns spec_deep_diff (JList reordered_source) (JList reordered_dest) None None
     = Inr ([], [], reordered_source)
   \<and> hd reordered_source \<in> set reordered_source
   \<and> hd reordered_source \<notin> source ` set []"
proof -
  let ?s = "hd reordered_source" and ?d = "hd reordered_dest"
  have run: "compare_patterns spec_deep_diff (JList reordered_source) (JList reordered_dest) None None
     = Inr ([], [], reordered_source)"
    by (simp add: compare_patterns_def reordered_source_def reordered_dest_def METADATA_FIELDS_def
      spec_deep_diff_def excluded_key_def add_mset_commute)
  have s: "last_named (KStr ''SSN'') reordered_source = Some ?s"
    by (simp add: reordered_source_def key_of_def)
  have d: "last_named (KStr ''SSN'') reordered_dest = Some ?d"
    by (simp add: reordered_dest_def key_of_def)
  have s': "prepare None None ?s
     = Inr (JDict [(''name'', JStr ''SSN''), (''keywords'', JList [JStr ''a'', JStr ''b'']),
            (''rule'', JDict [(''supported_confidence_levels'', JList [JStr ''low''])])])"
    by (simp add: prepare_def reordered_source_def METADATA_FIELDS_def)
  have d': "normalize_pattern ?d
     = Inr (JDict [(''name'', JStr ''SSN''), (''keywords'', JList [JStr ''b'', JStr ''a'']),
            (''rule'', JDict [(''supported_confidence_levels'', JList [JStr ''low'', JStr ''high''])])])"
    by (simp add: reordered_dest_def METADATA_FIELDS_def)
  from compare_patterns_identical_modulo_order [OF run s d s' d' reordered_same_modulo] run
  show ?thesis by simp
qed

section \<open>Properties of the orchestrator: dry run\<close>



















lemma liftE_Inr: "liftE x st = (Inr v, st') \<Longrightarrow> x = Inr v \<and> st' = st"
  by (simp add: liftE_def)

lemma returnS_Inr: "returnS u st = (Inr v, st') \<Longrightarrow> v = u \<and> st' = st"
  by (auto simp: returnS_def)










section \<open>Properties of the apply driver\<close>

lemma attempts_length: "attempts call xs st = (results, st') \<Longrightarrow> length results = length xs"
  by (induction xs arbitrary: st results) (auto split: prod.splits)

lemma try_each_attempts:
  assumes "list_all2 (\<lambda>x n. name_of x = Inr n) xs names"
    and "attempts call xs st = (results, st')"
  shows "try_each call name_of done failed xs report st
    = (Inr (foldl (record_outcome done failed) report (zip names results)), st')"
  using assms
proof (induction xs names arbitrary: st results report rule: list_all2_induct)
  case Nil
  then show ?case by simp
next
  case (Cons x xs n names)
  obtain result st1 where c: "call x st = (result, st1)" by (cases "call x st")
  obtain rs st2 where a: "attempts call xs st1 = (rs, st2)" by (cases "attempts call xs st1")
  from Cons.prems c a have r: "results = result # rs" "st' = st2" by simp_all
  let ?report = "case result of Inr r \<Rightarrow> done n report | Inl e \<Rightarrow> failed n e report"
  from Cons.IH [OF a [unfolded r(2) [symmetric]], of ?report] c Cons.hyps(1) r
  show ?case by (cases result) simp_all
qed

lemma succeeded_failures_mset:
  "length names = length results
     \<Longrightarrow> mset (succeeded names results) + mset (map fst (failures names results)) = mset names"
proof (induction names results rule: list_induct2)
  case Nil
  show ?case by simp
next
  case (Cons n ns r rs)
  then show ?case by (cases r) simp_all
qed

lemma fold_pattern_created:
  "length names = length results \<Longrightarrow>
   foldl (record_outcome pattern_created (\<lambda>n e. pattern_error (ErrorCreating n e))) r
     (zip names results)
   = r\<lparr>patterns := (patterns r)\<lparr>
         created := created (patterns r) @ succeeded names results,
         errors := errors (patterns r)
           @ map (\<lambda>(n, e). ErrorCreating n e) (failures names results)\<rparr>\<rparr>"
proof (induction names results arbitrary: r rule: list_induct2)
  case Nil
  show ?case by simp
next
  case (Cons n ns x xs)
  show ?case
    by (cases x) (simp_all add: Cons.IH, simp_all add: pattern_created_def pattern_error_def)
qed

lemma fold_pattern_updated:
  "length names = length results \<Longrightarrow>
   foldl (record_outcome pattern_updated (\<lambda>n e. pattern_error (ErrorUpdating n e))) r
     (zip names results)
   = r\<lparr>patterns := (patterns r)\<lparr>
         updated := updated (patterns r) @ succeeded names results,
         errors := errors (patterns r)
           @ map (\<lambda>(n, e). ErrorUpdating n e) (failures names results)\<rparr>\<rparr>"
proof (induction names results arbitrary: r rule: list_induct2)
  case Nil
  show ?case by simp
next
  case (Cons n ns x xs)
  show ?case
    by (cases x) (simp_all add: Cons.IH, simp_all add: pattern_updated_def pattern_error_def)
qed

lemma fold_profile_created:
  "length names = length results \<Longrightarrow>
   foldl (record_outcome profile_created (\<lambda>n e. profile_error (ErrorCreating n e))) r
     (zip names results)
   = r\<lparr>profiles := (profiles r)\<lparr>
         created := created (profiles r) @ succeeded names results,
         errors := errors (profiles r)
           @ map (\<lambda>(n, e). ErrorCreating n e) (failures names results)\<rparr>\<rparr>"
proof (induction names results arbitrary: r rule: list_induct2)
  case Nil
  show ?case by simp
next
  case (Cons n ns x xs)
  show ?case
    by (cases x) (simp_all add: Cons.IH, simp_all add: profile_created_def profile_error_def)
qed

lemma fold_profile_updated:
  "length names = length results \<Longrightarrow>
   foldl (record_outcome profile_updated (\<lambda>n e. profile_error (ErrorUpdating n e))) r
     (zip names results)
   = r\<lparr>profiles := (profiles r)\<lparr>
         updated := updated (profiles r) @ succeeded names results,
         errors := errors (profiles r)
           @ map (\<lambda>(n, e). ErrorUpdating n e) (failures names results)\<rparr>\<rparr>"
proof (induction names results arbitrary: r rule: list_induct2)
  case Nil
  show ?case by simp
next
  case (Cons n ns x xs)
  show ?case
    by (cases x) (simp_all add: Cons.IH, simp_all add: profile_updated_def profile_error_def)
qed


text \<open>
  C7.  In each of the four apply loops (creation and update of patterns, creation
  and update of profiles), for every plan whose items carry a name, as the
  classifier's do: the loop does not abort; the call of every item of the plan is
  attempted in plan order, each on the state left by the item before, whatever
  the earlier calls returned (\<open>attempts\<close>); the names of the items whose call
  returned are appended to the created (or updated) list and the names of the
  items whose call raised are appended, with the exception, to the errors list;
  every item lands in exactly one of the two; nothing is undone.
\<close>

theorem apply_loops_isolate_item_failures:
  "(list_all2 (\<lambda>p n. subscript p ''name'' = Inr n) ps names \<longrightarrow>
    attempts (\<lambda>p. create_pattern http p tok) ps st = (results, st') \<longrightarrow>
      create_patterns http tok ps report st
        = (Inr (report\<lparr>patterns := (patterns report)\<lparr>
              created := created (patterns report) @ succeeded names results,
              errors := errors (patterns report)
                @ map (\<lambda>(n, e). ErrorCreating n e) (failures names results)\<rparr>\<rparr>), st')
      \<and> length results = length ps
      \<and> mset (succeeded names results) + mset (map fst (failures names results)) = mset names)
 \<and> (list_all2 (\<lambda>u n. subscript (source u) ''name'' = Inr n) us names \<longrightarrow>
    attempts (\<lambda>item. bindS (liftE (subscript (destination item) ''id'')) (\<lambda>dest_id.
                update_pattern http dest_id (source item) tok)) us st = (results, st') \<longrightarrow>
      update_patterns http tok us report st
        = (Inr (report\<lparr>patterns := (patterns report)\<lparr>
              updated := updated (patterns report) @ succeeded names results,
              errors := errors (patterns report)
                @ map (\<lambda>(n, e). ErrorUpdating n e) (failures names results)\<rparr>\<rparr>), st')
      \<and> length results = length us
      \<and> mset (succeeded names results) + mset (map fst (failures names results)) = mset names)
 \<and> (list_all2 (\<lambda>p n. subscript p ''name'' = Inr n) ps names \<longrightarrow>
    attempts (\<lambda>p. create_profile http p tok pm (Some qm)) ps st = (results, st') \<longrightarrow>
      create_profiles http tok pm qm ps report st
        = (Inr (report\<lparr>profiles := (profiles report)\<lparr>
              created := created (profiles report) @ succeeded names results,
              errors := errors (profiles report)
                @ map (\<lambda>(n, e). ErrorCreating n e) (failures names results)\<rparr>\<rparr>), st')
      \<and> length results = length ps
      \<and> mset (succeeded names results) + mset (map fst (failures names results)) = mset names)
 \<and> (list_all2 (\<lambda>u n. subscript (source u) ''name'' = Inr n) us names \<longrightarrow>
    attempts (\<lambda>item. bindS (liftE (subscript (destination item) ''id'')) (\<lambda>dest_id.
                update_profile http dest_id (source item) tok pm (Some qm))) us st
      = (results, st') \<longrightarrow>
      update_profiles http tok pm qm us report st
        = (Inr (report\<lparr>profiles := (profiles report)\<lparr>
              updated := updated (profiles report) @ succeeded names results,
              errors := errors (profiles report)
                @ map (\<lambda>(n, e). ErrorUpdating n e) (failures names results)\<rparr>\<rparr>), st')
      \<and> length results = length us
      \<and> mset (succeeded names results) + mset (map fst (failures names results)) = mset names)"
proof (intro conjI impI)
  assume n: "list_all2 (\<lambda>p n. subscript p ''name'' = Inr n) ps names"
    and a: "attempts (\<lambda>p. create_pattern http p tok) ps st = (results, st')"
  from a have l: "length results = length ps" by (rule attempts_length)
  with n have ln: "length names = length results" by (simp add: list_all2_lengthD)
  show "length results = length ps" by (rule l)
  show "mset (succeeded names results) + mset (map fst (failures names results)) = mset names"
    using ln by (rule succeeded_failures_mset)
  show "create_patterns http tok ps report st
        = (Inr (report\<lparr>patterns := (patterns report)\<lparr>
              created := created (patterns report) @ succeeded names results,
              errors := errors (patterns report)
                @ map (\<lambda>(n, e). ErrorCreating n e) (failures names results)\<rparr>\<rparr>), st')"
    unfolding create_patterns_def try_each_attempts [OF n a] fold_pattern_created [OF ln] ..
next
  assume n: "list_all2 (\<lambda>u n. subscript (source u) ''name'' = Inr n) us names"
    and a: "attempts (\<lambda>item. bindS (liftE (subscript (destination item) ''id'')) (\<lambda>dest_id.
                update_pattern http dest_id (source item) tok)) us st = (results, st')"
  from a have l: "length results = length us" by (rule attempts_length)
  with n have ln: "length names = length results" by (simp add: list_all2_lengthD)
  show "length results = length us" by (rule l)
  show "mset (succeeded names results) + mset (map fst (failures names results)) = mset names"
    using ln by (rule succeeded_failures_mset)
  show "update_patterns http tok us report st
        = (Inr (report\<lparr>patterns := (patterns report)\<lparr>
              updated := updated (patterns report) @ succeeded names results,
              errors := errors (patterns report)
                @ map (\<lambda>(n, e). ErrorUpdating n e) (failures names results)\<rparr>\<rparr>), st')"
    unfolding update_patterns_def try_each_attempts [OF n a] fold_pattern_updated [OF ln] ..
next
  assume n: "list_all2 (\<lambda>p n. subscript p ''name'' = Inr n) ps names"
    and a: "attempts (\<lambda>p. create_profile http p tok pm (Some qm)) ps st = (results, st')"
  from a have l: "length results = length ps" by (rule attempts_length)
  with n have ln: "length names = length results" by (simp add: list_all2_lengthD)
  show "length results = length ps" by (rule l)
  show "mset (succeeded names results) + mset (map fst (failures names results)) = mset names"
    using ln by (rule succeeded_failures_mset)
  show "create_profiles http tok pm qm ps report st
        = (Inr (report\<lparr>profiles := (profiles report)\<lparr>
              created := created (profiles report) @ succeeded names results,
              errors := errors (profiles report)
                @ map (\<lambda>(n, e). ErrorCreating n e) (failures names results)\<rparr>\<rparr>), st')"
    unfolding create_profiles_def try_each_attempts [OF n a] fold_profile_created [OF ln] ..
next
  assume n: "list_all2 (\<lambda>u n. subscript (source u) ''name'' = Inr n) us names"
    and a: "attempts (\<lambda>item. bindS (liftE (subscript (destination item) ''id'')) (\<lambda>dest_id.
                update_profile http dest_id (source item) tok pm (Some qm))) us st
      = (results, st')"
  from a have l: "length results = length us" by (rule attempts_length)
  with n have ln: "length names = length results" by (simp add: list_all2_lengthD)
  show "length results = length us" by (rule l)
  show "mset (succeeded names results) + mset (map fst (failures names results)) = mset names"
    using ln by (rule succeeded_failures_mset)
  show "update_profiles http tok pm qm us report st
        = (Inr (report\<lparr>profiles := (profiles report)\<lparr>
              updated := updated (profiles report) @ succeeded names results,
              errors := errors (profiles report)
                @ map (\<lambda>(n, e). ErrorUpdating n e) (failures names results)\<rparr>\<rparr>), st')"
    unfolding update_profiles_def try_each_attempts [OF n a] fold_profile_updated [OF ln] ..
qed



theorem apply_loops_witness:
  "create_patterns example_http ''P'' [pattern_A, pattern_B, pattern_C]
       \<lparr>patterns = empty_phase 3 0 0, profiles = empty_phase 0 0 0\<rparr> ((), [])
     = (Inr \<lparr>patterns = \<lparr>to_create = 3, to_update = 0, identical = 0,
                created = [JStr ''B'', JStr ''C''], updated = [],
                errors = [ErrorCreating (JStr ''A'') (ApiError ''409'')]\<rparr>,
             profiles = empty_phase 0 0 0\<rparr>,
        (), [CreatePattern ''P'' (JDict [(''name'', JStr ''A''), (''type'', JStr ''custom'')]),
             CreatePattern ''P'' (JDict [(''name'', JStr ''B''), (''type'', JStr ''custom'')]),
             CreatePattern ''P'' (JDict [(''name'', JStr ''C''), (''type'', JStr ''custom'')])])"
proof -
  let ?results = "[Inl (ApiError ''409''),
       Inr (JDict [(''name'', JStr ''B''), (''type'', JStr ''custom'')]),
       Inr (JDict [(''name'', JStr ''C''), (''type'', JStr ''custom'')])]"
  let ?st' = "((), [CreatePattern ''P'' (JDict [(''name'', JStr ''A''), (''type'', JStr ''custom'')]),
             CreatePattern ''P'' (JDict [(''name'', JStr ''B''), (''type'', JStr ''custom'')]),
             CreatePattern ''P'' (JDict [(''name'', JStr ''C''), (''type'', JStr ''custom'')])])"
  have n: "list_all2 (\<lambda>p n. subscript p ''name'' = Inr n) [pattern_A, pattern_B, pattern_C]
      [JStr ''A'', JStr ''B'', JStr ''C'']"
    by (simp add: pattern_A_def pattern_B_def pattern_C_def)
  have a: "attempts (\<lambda>p. create_pattern example_http p ''P'') [pattern_A, pattern_B, pattern_C]
      ((), []) = (?results, ?st')"
    by code_simp
  from apply_loops_isolate_item_failures [of "[pattern_A, pattern_B, pattern_C]"
      "[JStr ''A'', JStr ''B'', JStr ''C'']" example_http "''P''" "((), [])" ?results ?st'
      "\<lparr>patterns = empty_phase 3 0 0, profiles = empty_phase 0 0 0\<rparr>"] n a
  show ?thesis by (simp add: empty_phase_def)
qed

section \<open>Properties of the orchestrator: listings and isolation\<close>





















lemma filterE_Inr: "\<exists>ys. (filterE c xs = Inr ys) \<or> (\<exists>e. filterE c xs = Inl e)"
  by (cases "filterE c xs") auto





lemma map_of_set_item_other: "k' \<noteq> k \<Longrightarrow> map_of (set_item kvs k v) k' = map_of kvs k'"
  by (simp add: map_of_set_item)










end
